theory Spec2Isabelle
  imports Main "HOL-Library.Word" "HOL-Library.Log_Nat" "HOL-Library.Monad_Syntax"
begin

section \<open>The C++ scalar types used by the viewer\<close>

text \<open>
  \<^verbatim>\<open>cpp_viewer/main.cpp\<close> computes on three scalar types: \<^verbatim>\<open>uchar\<close> (the 8-bit samples of a
  \<^verbatim>\<open>Format_Grayscale8\<close> image), \<^verbatim>\<open>int\<close> (32 bits, two's complement) and \<^verbatim>\<open>double\<close> (IEEE 754
  binary64). A sample is an \<open>8 word\<close>. An \<^verbatim>\<open>int\<close> is a mathematical integer together with the
  range check of the language: signed overflow and an out-of-range conversion from \<^verbatim>\<open>double\<close>
  have no defined result in C++, so the operations that can leave the range return \<open>None\<close>
  there.
\<close>

type_synonym uchar = "8 word"

definition INT_MIN :: int where
  "INT_MIN = - (2 ^ 31)"

definition INT_MAX :: int where
  "INT_MAX = 2 ^ 31 - 1"

definition in_int :: "int \<Rightarrow> bool" where
  "in_int n \<longleftrightarrow> INT_MIN \<le> n \<and> n \<le> INT_MAX"

definition int_sub :: "int \<Rightarrow> int \<Rightarrow> int option" where
  \<comment> \<open>\<^verbatim>\<open>a - b\<close> on \<^verbatim>\<open>int\<close>; overflow is undefined behaviour\<close>
  "int_sub a b = (if in_int (a - b) then Some (a - b) else None)"

definition qMax :: "int \<Rightarrow> int \<Rightarrow> int" where
  "qMax a b = (if a < b then b else a)"

definition qMin :: "int \<Rightarrow> int \<Rightarrow> int" where
  "qMin a b = (if a < b then a else b)"

definition qBound :: "int \<Rightarrow> int \<Rightarrow> int \<Rightarrow> int" where
  \<comment> \<open>\<^verbatim>\<open>qBound(min, val, max)\<close> is \<^verbatim>\<open>qMax(min, qMin(max, val))\<close>\<close>
  "qBound lo val hi = qMax lo (qMin hi val)"

subsection \<open>Doubles\<close>

text \<open>
  A finite \<^verbatim>\<open>double\<close> is the rational number it denotes. Every arithmetic operation computes
  the exact result and rounds it to the nearest number with a 53-bit significand, ties to
  the even significand (the default rounding mode), one rounding per operation (the product
  and the sum of the windowing formula are not fused). The exponent is not bounded in this
  model: the windowing arithmetic works on magnitudes between \<open>255 / 2 ^ 31\<close> and \<open>2 ^ 40\<close>,
  far inside the binary64 exponent range, and the scale factor of the widget, which nothing
  reads, leaves that range only after thousands of zoom steps in one direction.
\<close>

type_synonym double = rat

definition floor_log2 :: "rat \<Rightarrow> int" where
  \<comment> \<open>for \<open>0 < x\<close>: the exponent \<open>e\<close> with \<open>2 powi e \<le> x < 2 powi (e + 1)\<close>\<close>
  "floor_log2 x = (case quotient_of x of (p, q) \<Rightarrow>
     let k = bitlen p - bitlen q in if 2 powi k \<le> x then k else k - 1)"

definition round_half_even :: "rat \<Rightarrow> int" where
  "round_half_even m = (let f = \<lfloor>m\<rfloor>; r = m - of_int f in
     if r < 1 / 2 then f else if 1 / 2 < r then f + 1 else if even f then f else f + 1)"

definition to_double :: "rat \<Rightarrow> double" where
  "to_double x = (if x = 0 then 0 else
     let u = 2 powi (floor_log2 \<bar>x\<bar> - 52) in of_int (round_half_even (x / u)) * u)"

definition double_of_int :: "int \<Rightarrow> double" where
  \<comment> \<open>exact: a 32-bit integer fits the significand\<close>
  "double_of_int n = of_int n"

definition ddiv :: "double \<Rightarrow> double \<Rightarrow> double" where
  "ddiv a b = to_double (a / b)"

definition dmul :: "double \<Rightarrow> double \<Rightarrow> double" where
  "dmul a b = to_double (a * b)"

definition dadd :: "double \<Rightarrow> double \<Rightarrow> double" where
  "dadd a b = to_double (a + b)"

definition trunc :: "double \<Rightarrow> int" where
  \<comment> \<open>the fractional part is discarded, towards zero\<close>
  "trunc v = (if 0 \<le> v then \<lfloor>v\<rfloor> else \<lceil>v\<rceil>)"

definition int_of_double :: "double \<Rightarrow> int option" where
  \<comment> \<open>\<^verbatim>\<open>int(v)\<close>: truncation; undefined when the truncated value is not an \<^verbatim>\<open>int\<close>\<close>
  "int_of_double v = (if in_int (trunc v) then Some (trunc v) else None)"

section \<open>Images\<close>

text \<open>
  A \<^verbatim>\<open>QImage\<close> in \<^verbatim>\<open>Format_Grayscale8\<close> is its width, its height and its scan lines, one sample
  per pixel. Qt keeps \<open>height\<close> scan lines of at least \<open>width\<close> samples each; \<open>QImage_valid\<close>
  states it. The viewer holds its source as a \<^verbatim>\<open>QPixmap\<close> and converts it with
  \<^verbatim>\<open>toImage().convertToFormat(QImage::Format_Grayscale8)\<close> before windowing; the model is of
  grayscale sources (what the DICOM decoder delivers), for which the two conversions keep
  every sample, so a pixmap is the grayscale image it holds and the conversions are
  copies. Qt's images are values (implicitly shared, copied on the first write), and so are
  the model's.
\<close>

record QImage =
  width :: nat
  height :: nat
  bits :: "uchar list list"

type_synonym QPixmap = QImage

definition QImage_valid :: "QImage \<Rightarrow> bool" where
  "QImage_valid img \<longleftrightarrow>
     length (bits img) = height img \<and> list_all (\<lambda>line. length line = width img) (bits img)"

definition null_pixmap :: QPixmap where
  \<comment> \<open>the default-constructed \<^verbatim>\<open>QPixmap\<close>\<close>
  "null_pixmap = \<lparr>width = 0, height = 0, bits = []\<rparr>"

definition isNull :: "QPixmap \<Rightarrow> bool" where
  "isNull p \<longleftrightarrow> width p = 0 \<or> height p = 0"

definition toImage :: "QPixmap \<Rightarrow> QImage" where
  "toImage p = p"

definition convertToFormat_Grayscale8 :: "QImage \<Rightarrow> QImage" where
  "convertToFormat_Grayscale8 img = img"

definition fromImage :: "QImage \<Rightarrow> QPixmap" where
  "fromImage img = img"

definition scanLine :: "QImage \<Rightarrow> nat \<Rightarrow> uchar list" where
  "scanLine img y = bits img ! y"

definition set_scanLine :: "QImage \<Rightarrow> nat \<Rightarrow> uchar list \<Rightarrow> QImage" where
  \<comment> \<open>the writes through the pointer that \<^verbatim>\<open>scanLine(y)\<close> returns\<close>
  "set_scanLine img y line = img\<lparr>bits := (bits img)[y := line]\<rparr>"

datatype QRect = QRect int int int int

definition rect :: "QPixmap \<Rightarrow> QRect" where
  "rect p = QRect 0 0 (int (width p)) (int (height p))"

section \<open>The windowing of one sample\<close>

text \<open>
  Lines 77 to 80 of \<^verbatim>\<open>applyWindowLevel\<close>:
  \<^verbatim>\<open>
    int gray = line[x];
    double slope = 255.0 / qMax(1, windowWidth);
    int newGray = qBound(0, int(slope * (gray - windowCenter) + 127), 255);
    line[x] = static_cast<uchar>(newGray);
  \<close>
\<close>

definition slope :: "int \<Rightarrow> double" where
  "slope windowWidth = ddiv 255 (double_of_int (qMax 1 windowWidth))"

definition window_value :: "int \<Rightarrow> int \<Rightarrow> double" where
  \<comment> \<open>\<^verbatim>\<open>slope * d + 127\<close> for the difference \<open>d\<close> of sample and centre\<close>
  "window_value d windowWidth =
     dadd (dmul (slope windowWidth) (double_of_int d)) (double_of_int 127)"

definition newGray :: "int \<Rightarrow> int \<Rightarrow> int \<Rightarrow> int option" where
  "newGray gray windowCenter windowWidth =
     do {
       d \<leftarrow> int_sub gray windowCenter;
       n \<leftarrow> int_of_double (window_value d windowWidth);
       Some (qBound 0 n 255)
     }"

definition window_sample :: "int \<Rightarrow> int \<Rightarrow> uchar \<Rightarrow> uchar option" where
  "window_sample windowCenter windowWidth s =
     map_option word_of_int (newGray (uint s) windowCenter windowWidth)"

section \<open>The windowing loops\<close>

text \<open>
  The two \<^verbatim>\<open>for\<close> loops of \<^verbatim>\<open>applyWindowLevel\<close> (lines 74 to 82). The inner loop runs \<open>x\<close>
  from its start to \<^verbatim>\<open>img.width()\<close> over one scan line, the outer loop runs \<open>y\<close> to
  \<^verbatim>\<open>img.height()\<close>. Either stops with \<open>None\<close> as soon as one sample has no defined result.
\<close>

function line_loop :: "int \<Rightarrow> int \<Rightarrow> nat \<Rightarrow> nat \<Rightarrow> uchar list \<Rightarrow> uchar list option" where
  "line_loop windowCenter windowWidth n x line =
     (if x < n then
        (case window_sample windowCenter windowWidth (line ! x) of
           None \<Rightarrow> None
         | Some g \<Rightarrow> line_loop windowCenter windowWidth n (Suc x) (line[x := g]))
      else Some line)"
  by pat_completeness auto
termination
  by (relation "measure (\<lambda>(windowCenter, windowWidth, n, x, line). n - x)") auto

declare line_loop.simps [simp del]

function image_loop :: "int \<Rightarrow> int \<Rightarrow> nat \<Rightarrow> QImage \<Rightarrow> QImage option" where
  "image_loop windowCenter windowWidth y img =
     (if y < height img then
        (case line_loop windowCenter windowWidth (width img) 0 (scanLine img y) of
           None \<Rightarrow> None
         | Some line \<Rightarrow> image_loop windowCenter windowWidth (Suc y) (set_scanLine img y line))
      else Some img)"
  by pat_completeness auto
termination
  by (relation "measure (\<lambda>(windowCenter, windowWidth, y, img). height img - y)")
    (auto simp: set_scanLine_def)

declare image_loop.simps [simp del]

section \<open>The image widget\<close>

text \<open>
  \<^verbatim>\<open>DicomImageWidget\<close> extends \<^verbatim>\<open>QGraphicsView\<close>. The state of the base class (transform,
  scroll bars, cursor, viewport) is a value of a type \<open>'v\<close> that the widget never inspects,
  and the member functions of the base class that the widget calls are the fields of a
  record of functions on \<open>'v\<close>: the theorems hold for every behaviour of the toolkit. The
  scene holds at most the one pixmap item: \<open>pixmapItem\<close> is \<open>None\<close> for the null pointer and
  \<open>Some p\<close> for the item that displays the pixmap \<open>p\<close>. \<^verbatim>\<open>pixmapItem->setPixmap\<close> replaces that
  pixmap; the transform and the scroll bars belong to the view, and the scene rectangle is
  the one that \<^verbatim>\<open>setSceneRect\<close> fixed, so the call changes none of them.
\<close>

type_synonym QPoint = "int \<times> int"

datatype MouseButton = LeftButton | RightButton | MiddleButton | NoButton

datatype CursorShape = ArrowCursor | ClosedHandCursor

record QMouseEvent =
  button :: MouseButton
  pos :: QPoint

record QWheelEvent =
  angleDelta :: QPoint

record 'v QGraphicsView =
  scale :: "double \<Rightarrow> double \<Rightarrow> 'v \<Rightarrow> 'v"
  resetTransform :: "'v \<Rightarrow> 'v"
  fitInView :: "QRect \<Rightarrow> 'v \<Rightarrow> 'v"
  horizontalScrollBar_value :: "'v \<Rightarrow> int"
  horizontalScrollBar_setValue :: "int \<Rightarrow> 'v \<Rightarrow> 'v"
  verticalScrollBar_value :: "'v \<Rightarrow> int"
  verticalScrollBar_setValue :: "int \<Rightarrow> 'v \<Rightarrow> 'v"
  setCursor :: "CursorShape \<Rightarrow> 'v \<Rightarrow> 'v"
  base_mousePressEvent :: "QMouseEvent \<Rightarrow> 'v \<Rightarrow> 'v"
  base_mouseMoveEvent :: "QMouseEvent \<Rightarrow> 'v \<Rightarrow> 'v"
  base_mouseReleaseEvent :: "QMouseEvent \<Rightarrow> 'v \<Rightarrow> 'v"

record 'v DicomImageWidget =
  view :: 'v
  sceneRect :: QRect
  pixmapItem :: "QPixmap option"
  currentPixmap :: QPixmap
  scaleFactor :: double
  windowCenter :: int
  windowWidth :: int
  isDragging :: bool
  lastPanPoint :: QPoint

definition new_DicomImageWidget :: "'v \<Rightarrow> 'v DicomImageWidget" where
  \<comment> \<open>the constructor, line 37; \<open>v\<close> is the base view after the four setters of its body\<close>
  "new_DicomImageWidget v =
     \<lparr>view = v, sceneRect = QRect 0 0 0 0, pixmapItem = None, currentPixmap = null_pixmap,
      scaleFactor = 1, windowCenter = 128, windowWidth = 256, isDragging = False,
      lastPanPoint = (0, 0)\<rparr>"

definition itemsBoundingRect :: "'v DicomImageWidget \<Rightarrow> QRect" where
  "itemsBoundingRect w = (case pixmapItem w of None \<Rightarrow> QRect 0 0 0 0 | Some p \<Rightarrow> rect p)"

definition setDicomImage :: "'v QGraphicsView \<Rightarrow> QPixmap \<Rightarrow> 'v DicomImageWidget \<Rightarrow> 'v DicomImageWidget" where
  "setDicomImage qt pixmap w =
     (let w1 = w\<lparr>pixmapItem := None\<rparr>;
          w2 = w1\<lparr>currentPixmap := pixmap\<rparr>;
          w3 = w2\<lparr>pixmapItem := Some pixmap\<rparr>;
          w4 = w3\<lparr>sceneRect := rect pixmap\<rparr>
      in w4\<lparr>view := fitInView qt (itemsBoundingRect w4) (view w4)\<rparr>)"

definition zoomIn :: "'v QGraphicsView \<Rightarrow> 'v DicomImageWidget \<Rightarrow> 'v DicomImageWidget" where
  "zoomIn qt w =
     (let w1 = w\<lparr>view := scale qt (5 / 4) (5 / 4) (view w)\<rparr>
      in w1\<lparr>scaleFactor := dmul (scaleFactor w1) (5 / 4)\<rparr>)"

definition zoomOut :: "'v QGraphicsView \<Rightarrow> 'v DicomImageWidget \<Rightarrow> 'v DicomImageWidget" where
  \<comment> \<open>the literal \<^verbatim>\<open>0.8\<close> is the double nearest to \<open>4 / 5\<close>\<close>
  "zoomOut qt w =
     (let w1 = w\<lparr>view := scale qt (to_double (4 / 5)) (to_double (4 / 5)) (view w)\<rparr>
      in w1\<lparr>scaleFactor := dmul (scaleFactor w1) (to_double (4 / 5))\<rparr>)"

definition resetZoom :: "'v QGraphicsView \<Rightarrow> 'v DicomImageWidget \<Rightarrow> 'v DicomImageWidget" where
  "resetZoom qt w =
     (let w1 = w\<lparr>view := resetTransform qt (view w)\<rparr>;
          w2 = w1\<lparr>scaleFactor := 1\<rparr>
      in w2\<lparr>view := fitInView qt (itemsBoundingRect w2) (view w2)\<rparr>)"

definition applyWindowLevel :: "'v DicomImageWidget \<Rightarrow> 'v DicomImageWidget option" where
  "applyWindowLevel w =
     (if isNull (currentPixmap w) \<or> pixmapItem w = None then Some w
      else
        (case image_loop (windowCenter w) (windowWidth w) 0
                (convertToFormat_Grayscale8 (toImage (currentPixmap w))) of
           None \<Rightarrow> None
         | Some img \<Rightarrow> Some (w\<lparr>pixmapItem := Some (fromImage img)\<rparr>)))"

definition adjustWindowLevel :: "int \<Rightarrow> int \<Rightarrow> 'v DicomImageWidget \<Rightarrow> 'v DicomImageWidget option" where
  "adjustWindowLevel center width' w =
     applyWindowLevel (w\<lparr>windowCenter := center, windowWidth := width'\<rparr>)"

definition wheelEvent :: "'v QGraphicsView \<Rightarrow> QWheelEvent \<Rightarrow> 'v DicomImageWidget \<Rightarrow> 'v DicomImageWidget" where
  "wheelEvent qt e w = (if snd (angleDelta e) > 0 then zoomIn qt w else zoomOut qt w)"

definition mousePressEvent :: "'v QGraphicsView \<Rightarrow> QMouseEvent \<Rightarrow> 'v DicomImageWidget \<Rightarrow> 'v DicomImageWidget" where
  "mousePressEvent qt e w =
     (if button e = MiddleButton then
        w\<lparr>isDragging := True, lastPanPoint := pos e, view := setCursor qt ClosedHandCursor (view w)\<rparr>
      else w\<lparr>view := base_mousePressEvent qt e (view w)\<rparr>)"

definition mouseMoveEvent :: "'v QGraphicsView \<Rightarrow> QMouseEvent \<Rightarrow> 'v DicomImageWidget \<Rightarrow> 'v DicomImageWidget" where
  \<comment> \<open>positions and scroll values are widget pixel coordinates; their differences are taken
      on the integers\<close>
  "mouseMoveEvent qt e w =
     (if isDragging w then
        (let d = (fst (pos e) - fst (lastPanPoint w), snd (pos e) - snd (lastPanPoint w));
             v1 = horizontalScrollBar_setValue qt (horizontalScrollBar_value qt (view w) - fst d) (view w);
             v2 = verticalScrollBar_setValue qt (verticalScrollBar_value qt v1 - snd d) v1
         in w\<lparr>view := v2, lastPanPoint := pos e\<rparr>)
      else w\<lparr>view := base_mouseMoveEvent qt e (view w)\<rparr>)"

definition mouseReleaseEvent :: "'v QGraphicsView \<Rightarrow> QMouseEvent \<Rightarrow> 'v DicomImageWidget \<Rightarrow> 'v DicomImageWidget" where
  "mouseReleaseEvent qt e w =
     (let w1 = (if button e = MiddleButton then
                  w\<lparr>isDragging := False, view := setCursor qt ArrowCursor (view w)\<rparr>
                else w)
      in w1\<lparr>view := base_mouseReleaseEvent qt e (view w1)\<rparr>)"

section \<open>The main window\<close>

text \<open>
  The part of \<^verbatim>\<open>DicomViewerWindow\<close> that loads images and fetches the worklist. What the
  file system, the decoder and the network deliver is input of the model: the decoder
  that the build selects (\<^verbatim>\<open>DCMTK_AVAILABLE\<close> or not) comes with its reading function, a
  network reply with its error state and its body as \<^verbatim>\<open>QJsonDocument::fromJson\<close> parses it.
\<close>

datatype DcmtkResult =
    LoadFileFailed     \<comment> \<open>\<^verbatim>\<open>st.good()\<close> is false\<close>
  | BadImageStatus     \<comment> \<open>no image, or its status is not \<^verbatim>\<open>EIS_Normal\<close>\<close>
  | NoPixelData        \<comment> \<open>\<^verbatim>\<open>getOutputData(8)\<close> returns null\<close>
  | OutputData QImage  \<comment> \<open>the \<^verbatim>\<open>QImage\<close> built over the output data\<close>

datatype Decoder =
    Dcmtk "string \<Rightarrow> DcmtkResult"
  | PlainPixmap "string \<Rightarrow> QPixmap"

record WorklistEntry =
  patient_name :: string
  study_description :: string
  dicom_path :: string

datatype QJsonDocument =
    ParseError
  | JsonArray "WorklistEntry list"
  | JsonObject "WorklistEntry list"  \<comment> \<open>an object, with the array under its key \<^verbatim>\<open>worklist\<close>\<close>
  | JsonOther

record QNetworkRequest =
  url :: string
  authorization :: "string option"


record 'v DicomViewerWindow =
  imageWidget :: "'v DicomImageWidget"
  seriesList :: "string list"
  statusLabel :: string
  progressBar_visible :: bool
  progressBar_range :: "int \<times> int"
  networkManager :: "QNetworkRequest list"  \<comment> \<open>the requests sent so far, oldest first\<close>
  djangoBaseUrl :: string
  authToken :: string
  currentSeries :: "string list"



definition loadDicomFile :: "'v QGraphicsView \<Rightarrow> Decoder \<Rightarrow> string \<Rightarrow> 'v DicomViewerWindow \<Rightarrow> 'v DicomViewerWindow" where
  "loadDicomFile qt decoder path win =
     (let win1 = win\<lparr>progressBar_visible := True, progressBar_range := (0, 0),
                     statusLabel := ''Loading DICOM file...''\<rparr>;
          win2 =
            (case decoder of
               Dcmtk loadFile \<Rightarrow>
                 (case loadFile path of
                    OutputData img \<Rightarrow>
                      win1\<lparr>imageWidget := setDicomImage qt (fromImage img) (imageWidget win1),
                           statusLabel := ''DICOM file loaded''\<rparr>
                  | NoPixelData \<Rightarrow> win1\<lparr>statusLabel := ''Error: No pixel data''\<rparr>
                  | BadImageStatus \<Rightarrow> win1\<lparr>statusLabel := ''Error: Cannot create DICOM image''\<rparr>
                  | LoadFileFailed \<Rightarrow> win1\<lparr>statusLabel := ''Error: Cannot load DICOM file''\<rparr>)
             | PlainPixmap load \<Rightarrow>
                 (let pix = load path in
                  if \<not> isNull pix then
                    win1\<lparr>imageWidget := setDicomImage qt pix (imageWidget win1),
                         statusLabel := ''Image loaded (not DICOM processed)''\<rparr>
                  else win1\<lparr>statusLabel := ''Error: Cannot load file''\<rparr>))
      in win2\<lparr>progressBar_visible := False\<rparr>)"



definition refreshWorklist :: "'v DicomViewerWindow \<Rightarrow> 'v DicomViewerWindow" where
  \<comment> \<open>sends the request; the reply arrives later, as a call of \<open>worklist_finished\<close>\<close>
  "refreshWorklist win =
     (if djangoBaseUrl win = [] then win
      else
        (let req = \<lparr>url = djangoBaseUrl win @ ''/api/worklist/'',
                    authorization = (if authToken win \<noteq> [] then Some (''Bearer '' @ authToken win) else None)\<rparr>
         in win\<lparr>networkManager := networkManager win @ [req]\<rparr>))"





definition new_DicomViewerWindow :: "'v \<Rightarrow> string \<Rightarrow> string \<Rightarrow> 'v DicomViewerWindow" where
  \<comment> \<open>the constructor, lines 98 to 105: \<open>baseUrl\<close> and \<open>token\<close> are what \<^verbatim>\<open>loadSettings\<close> reads;
      its last statement is the first call of \<^verbatim>\<open>refreshWorklist\<close>\<close>
  "new_DicomViewerWindow v baseUrl token =
     refreshWorklist
       \<lparr>imageWidget = new_DicomImageWidget v, seriesList = [], statusLabel = ''Ready'',
        progressBar_visible = False, progressBar_range = (0, 100), networkManager = [],
        djangoBaseUrl = baseUrl, authToken = token, currentSeries = []\<rparr>"

section \<open>Reference definitions\<close>

text \<open>
  The windowing of a scan line and of an image as maps over the samples, to compare the
  loops with.
\<close>

definition window_line :: "int \<Rightarrow> int \<Rightarrow> uchar list \<Rightarrow> uchar list option" where
  "window_line center width' line = those (map (window_sample center width') line)"

definition window_image :: "int \<Rightarrow> int \<Rightarrow> QImage \<Rightarrow> QImage option" where
  "window_image center width' img =
     map_option (\<lambda>lines. img\<lparr>bits := lines\<rparr>) (those (map (window_line center width') (bits img)))"

text \<open>
  The per-sample transform in the words of the specification, section 4.1:
  \<^verbatim>\<open>slope = 255.0 / max(1, width)\<close>, \<^verbatim>\<open>output = clamp(round(slope * (input - center) + 127), 0, 255)\<close>,
  on the same doubles.
\<close>

definition spec_output :: "int \<Rightarrow> int \<Rightarrow> int \<Rightarrow> int" where
  "spec_output input center width' =
     (let slope' = ddiv 255 (of_int (max 1 width'))
      in max 0 (min 255 (round (dadd (dmul slope' (of_int (input - center))) 127))))"

text \<open>
  A toolkit to evaluate the widget with: its view records the calls it has received, and
  each scroll bar holds the value last set.
\<close>

datatype ViewCall =
    Scale double double
  | ResetTransform
  | FitInView QRect
  | SetCursor CursorShape
  | MousePress QMouseEvent
  | MouseMove QMouseEvent
  | MouseRelease QMouseEvent

record RecordedView =
  calls :: "ViewCall list"
  hscroll :: int
  vscroll :: int

definition recorded :: "ViewCall \<Rightarrow> RecordedView \<Rightarrow> RecordedView" where
  "recorded c v = v\<lparr>calls := calls v @ [c]\<rparr>"

definition recording_view :: "RecordedView QGraphicsView" where
  "recording_view =
     \<lparr>scale = (\<lambda>sx sy. recorded (Scale sx sy)),
      resetTransform = recorded ResetTransform,
      fitInView = (\<lambda>r. recorded (FitInView r)),
      horizontalScrollBar_value = hscroll,
      horizontalScrollBar_setValue = (\<lambda>n v. v\<lparr>hscroll := n\<rparr>),
      verticalScrollBar_value = vscroll,
      verticalScrollBar_setValue = (\<lambda>n v. v\<lparr>vscroll := n\<rparr>),
      setCursor = (\<lambda>c. recorded (SetCursor c)),
      base_mousePressEvent = (\<lambda>e. recorded (MousePress e)),
      base_mouseMoveEvent = (\<lambda>e. recorded (MouseMove e)),
      base_mouseReleaseEvent = (\<lambda>e. recorded (MouseRelease e))\<rparr>"

definition fresh_view :: RecordedView where
  "fresh_view = \<lparr>calls = [], hscroll = 0, vscroll = 0\<rparr>"

definition gray_image :: "uchar list list \<Rightarrow> QImage" where
  \<comment> \<open>the image with the given scan lines\<close>
  "gray_image lines = \<lparr>width = (case lines of [] \<Rightarrow> 0 | line # _ \<Rightarrow> length line),
                       height = length lines, bits = lines\<rparr>"

section \<open>Repetition and examples\<close>


definition decoded :: "Decoder \<Rightarrow> string \<Rightarrow> QPixmap option" where
  \<comment> \<open>the pixmap that \<^verbatim>\<open>loadDicomFile\<close> hands to \<^verbatim>\<open>setDicomImage\<close>, if it gets that far\<close>
  "decoded decoder path =
     (case decoder of
        Dcmtk loadFile \<Rightarrow> (case loadFile path of OutputData img \<Rightarrow> Some (fromImage img) | _ \<Rightarrow> None)
      | PlainPixmap load \<Rightarrow> (if isNull (load path) then None else Some (load path)))"

definition example_image :: QImage where
  "example_image = gray_image [[0, 130], [128, 255]]"

definition example_widget :: "RecordedView DicomImageWidget" where
  "example_widget = setDicomImage recording_view example_image (new_DicomImageWidget fresh_view)"

definition adjusted_widget :: "RecordedView DicomImageWidget" where
  "adjusted_widget = (new_DicomImageWidget fresh_view)\<lparr>windowCenter := 50, windowWidth := 100\<rparr>"



definition zoomed_widget :: "RecordedView DicomImageWidget" where
  "zoomed_widget = zoomIn recording_view example_widget"

definition example_load :: "string \<Rightarrow> QPixmap" where
  "example_load path =
     (if path = ''/a.png'' then gray_image [[7]]
      else if path = ''/b.png'' then example_image else null_pixmap)"

definition example_files :: Decoder where
  "example_files = PlainPixmap example_load"

definition example_loadFile :: "string \<Rightarrow> DcmtkResult" where
  "example_loadFile path = (if path = ''/b.dcm'' then OutputData example_image else BadImageStatus)"



definition example_window :: "RecordedView DicomViewerWindow" where
  "example_window = new_DicomViewerWindow fresh_view ''http://localhost:8000/viewer'' []"

definition loaded_window :: "RecordedView DicomViewerWindow" where
  "loaded_window = loadDicomFile recording_view example_files ''/b.png'' example_window"

section \<open>Properties of the arithmetic\<close>

text \<open>
  Rounding to a double moves a value by at most the fraction \<open>1 / 2 ^ 53\<close> of its size. With
  it, the windowing value of a sample stays inside the range of \<^verbatim>\<open>int\<close> whenever the centre
  is at most \<open>2 ^ 23\<close> in size, so the conversion is defined there.
\<close>

lemma floor_log2_le:
  assumes "0 < x"
  shows "2 powi floor_log2 x \<le> x"
proof -
  obtain p q where pq: "quotient_of x = (p, q)" by (cases "quotient_of x")
  have q: "0 < q" using quotient_of_denom_pos [OF pq] .
  have x: "x = of_int p / of_int q" using quotient_of_div [OF pq] .
  have p: "0 < p" using assms q unfolding x by (simp add: zero_less_divide_iff)
  let ?k = "bitlen p - bitlen q"
  show ?thesis
  proof (cases "2 powi ?k \<le> x")
    case True
    then show ?thesis by (simp add: floor_log2_def pq)
  next
    case False
    have bp: "1 \<le> bitlen p" using p bitlen_eq_zero_iff [of p] bitlen_nonneg [of p] by linarith
    have bq: "1 \<le> bitlen q" using q bitlen_eq_zero_iff [of q] bitlen_nonneg [of q] by linarith
    have lo: "(2::rat) powi (bitlen p - 1) \<le> of_int p"
    proof -
      have "(2::int) ^ nat (bitlen p - 1) \<le> p" using bitlen_bounds [OF p] by simp
      then have "of_int ((2::int) ^ nat (bitlen p - 1)) \<le> (of_int p :: rat)"
        by (simp only: of_int_le_iff)
      then show ?thesis using bp by (simp add: power_int_def)
    qed
    have hi: "of_int q \<le> (2::rat) powi bitlen q"
    proof -
      have "q < (2::int) ^ nat (bitlen q)" using bitlen_bounds [OF q] by simp
      then have "(of_int q :: rat) \<le> of_int ((2::int) ^ nat (bitlen q))"
        by (simp only: of_int_le_iff)
      then show ?thesis using bq by (simp add: power_int_def)
    qed
    have "(2::rat) powi (?k - 1) = 2 powi (bitlen p - 1) / 2 powi bitlen q"
      by (simp add: power_int_diff)
    also have "\<dots> \<le> of_int p / 2 powi bitlen q"
      by (rule divide_right_mono [OF lo]) simp
    also have "\<dots> \<le> of_int p / of_int q"
      by (rule divide_left_mono [OF hi]) (use p q in simp_all)
    finally have "(2::rat) powi (?k - 1) \<le> x" unfolding x .
    with False show ?thesis by (simp add: floor_log2_def pq)
  qed
qed

lemma round_half_even_error: "\<bar>of_int (round_half_even m) - m\<bar> \<le> 1 / 2"
proof -
  have "of_int \<lfloor>m\<rfloor> \<le> m" "m < of_int \<lfloor>m\<rfloor> + 1" by linarith+
  then show ?thesis
    by (auto simp: round_half_even_def Let_def abs_le_iff)
qed

lemma to_double_error: "\<bar>to_double x - x\<bar> \<le> \<bar>x\<bar> / 2 ^ 53"
proof (cases "x = 0")
  case True
  then show ?thesis by (simp add: to_double_def)
next
  case False
  define e where "e = floor_log2 \<bar>x\<bar>"
  define u :: rat where "u = 2 powi (e - 52)"
  have u: "0 < u" by (simp add: u_def)
  have e: "2 powi e \<le> \<bar>x\<bar>" unfolding e_def using False by (intro floor_log2_le) simp
  have td: "to_double x = of_int (round_half_even (x / u)) * u"
    using False by (simp add: to_double_def Let_def u_def e_def)
  have "to_double x - x = (of_int (round_half_even (x / u)) - x / u) * u"
    using u by (simp add: td field_simps)
  then have "\<bar>to_double x - x\<bar> = \<bar>of_int (round_half_even (x / u)) - x / u\<bar> * u"
    using u by (simp add: abs_mult)
  also have "\<dots> \<le> (1 / 2) * u"
    by (rule mult_right_mono [OF round_half_even_error]) (use u in simp)
  also have "\<dots> = 2 powi e / 2 ^ 53"
    by (simp add: u_def power_int_diff)
  also have "\<dots> \<le> \<bar>x\<bar> / 2 ^ 53"
    by (rule divide_right_mono [OF e]) simp
  finally show ?thesis .
qed

lemma to_double_abs_le: "\<bar>to_double x\<bar> \<le> \<bar>x\<bar> * (1 + 1 / 2 ^ 53)"
proof -
  have "\<bar>to_double x\<bar> \<le> \<bar>x\<bar> + \<bar>to_double x - x\<bar>" by linarith
  also have "\<dots> \<le> \<bar>x\<bar> + \<bar>x\<bar> / 2 ^ 53" using to_double_error [of x] by linarith
  finally show ?thesis by (simp add: algebra_simps)
qed

lemma to_double_abs_bound:
  assumes "\<bar>x\<bar> \<le> b"
  shows "\<bar>to_double x\<bar> \<le> b * (1 + 1 / 2 ^ 53)"
proof -
  have "\<bar>to_double x\<bar> \<le> \<bar>x\<bar> * (1 + 1 / 2 ^ 53)" by (rule to_double_abs_le)
  also have "\<dots> \<le> b * (1 + 1 / 2 ^ 53)" by (rule mult_right_mono [OF assms]) simp
  finally show ?thesis .
qed

lemma qMax_1_pos: "1 \<le> qMax 1 w"
  by (simp add: qMax_def)

lemma slope_bound: "\<bar>slope w\<bar> \<le> 255 * (1 + 1 / 2 ^ 53)"
proof -
  have "1 \<le> (of_int (qMax 1 w) :: rat)" using qMax_1_pos [of w] by (simp only: of_int_1_le_iff)
  then have "\<bar>255 / (of_int (qMax 1 w) :: rat)\<bar> \<le> 255"
    by (simp add: abs_if field_simps)
  then show ?thesis
    unfolding slope_def ddiv_def double_of_int_def by (rule to_double_abs_bound)
qed

lemma window_value_bound:
  assumes "\<bar>d\<bar> \<le> 2 ^ 23 + 255"
  shows "\<bar>window_value d w\<bar> < 2 ^ 31 - 1"
proof -
  let ?e = "(1 + 1 / 2 ^ 53) :: rat"
  have d: "\<bar>of_int d :: rat\<bar> \<le> 2 ^ 23 + 255"
  proof -
    have "(of_int \<bar>d\<bar> :: rat) \<le> of_int (2 ^ 23 + 255)" using assms by (simp only: of_int_le_iff)
    then show ?thesis by simp
  qed
  have "\<bar>slope w * of_int d\<bar> = \<bar>slope w\<bar> * \<bar>of_int d :: rat\<bar>" by (simp add: abs_mult)
  also have "\<dots> \<le> (255 * ?e) * (2 ^ 23 + 255)"
    by (rule mult_mono [OF slope_bound d]) simp_all
  finally have "\<bar>dmul (slope w) (double_of_int d)\<bar> \<le> ((255 * ?e) * (2 ^ 23 + 255)) * ?e"
    unfolding dmul_def double_of_int_def by (rule to_double_abs_bound)
  moreover have "double_of_int 127 = 127" by (simp add: double_of_int_def)
  ultimately have "\<bar>dmul (slope w) (double_of_int d) + double_of_int 127\<bar> \<le> ((255 * ?e) * (2 ^ 23 + 255)) * ?e + 127"
    by linarith
  then have "\<bar>window_value d w\<bar> \<le> (((255 * ?e) * (2 ^ 23 + 255)) * ?e + 127) * ?e"
    unfolding window_value_def dadd_def by (rule to_double_abs_bound)
  also have "\<dots> < 2 ^ 31 - 1" by simp
  finally show ?thesis .
qed

lemma trunc_abs_le: "\<bar>of_int (trunc v) :: rat\<bar> \<le> \<bar>v\<bar>"
proof (cases "0 \<le> v")
  case True
  then have "0 \<le> \<lfloor>v\<rfloor>" by simp
  moreover have "of_int \<lfloor>v\<rfloor> \<le> v" by linarith
  ultimately show ?thesis using True by (simp add: trunc_def)
next
  case False
  then have "\<lceil>v\<rceil> \<le> 0" by (simp add: ceiling_le_iff)
  moreover have "v \<le> of_int \<lceil>v\<rceil>" by linarith
  ultimately show ?thesis using False by (simp add: trunc_def)
qed

lemma int_of_double_defined:
  assumes "\<bar>v\<bar> < 2 ^ 31 - 1"
  shows "int_of_double v = Some (trunc v)"
proof -
  have "\<bar>of_int (trunc v) :: rat\<bar> < of_int (2 ^ 31 - 1)"
    using trunc_abs_le [of v] assms by simp
  then have "\<bar>trunc v\<bar> < 2 ^ 31 - 1"
    by (simp only: of_int_abs [symmetric] of_int_less_iff)
  then have "in_int (trunc v)" unfolding in_int_def INT_MIN_def INT_MAX_def by linarith
  then show ?thesis by (simp add: int_of_double_def)
qed

lemma qBound_trunc: "qBound 0 (trunc v) 255 = qBound 0 \<lfloor>v\<rfloor> 255"
proof (cases "0 \<le> v")
  case True
  then show ?thesis by (simp add: trunc_def)
next
  case False
  then have "\<lceil>v\<rceil> \<le> 0" "\<lfloor>v\<rfloor> < 0" by (simp_all add: ceiling_le_iff floor_less_iff)
  with False show ?thesis by (simp add: trunc_def qBound_def qMax_def qMin_def)
qed

lemma qBound_max_min: "qBound lo n hi = max lo (min hi n)"
  by (simp add: qBound_def qMax_def qMin_def max_def min_def)

lemma newGray_defined:
  assumes "0 \<le> gray" "gray \<le> 255" "\<bar>center\<bar> \<le> 2 ^ 23"
  shows "newGray gray center w = Some (qBound 0 \<lfloor>window_value (gray - center) w\<rfloor> 255)"
proof -
  have d: "\<bar>gray - center\<bar> \<le> 2 ^ 23 + 255" using assms by linarith
  then have "in_int (gray - center)" by (simp add: in_int_def INT_MIN_def INT_MAX_def abs_le_iff)
  then have "int_sub gray center = Some (gray - center)" by (simp add: int_sub_def)
  moreover have "int_of_double (window_value (gray - center) w) = Some (trunc (window_value (gray - center) w))"
    by (rule int_of_double_defined [OF window_value_bound [OF d]])
  ultimately show ?thesis by (simp add: newGray_def qBound_trunc)
qed

text \<open>
  A value with a significand below \<open>2 ^ 53\<close> is a double, and rounding leaves it as it is.
  So the arithmetic is exact for a window width of 256, and for every width below 1, where
  the slope is 255.
\<close>

text \<open>
  A value with a significand below \<open>2 ^ 53\<close> is a double, and rounding leaves it as it is.
  So the arithmetic is exact for a window width of 256, and for every width below 1, where
  the slope is 255.
\<close>

lemma round_half_even_of_int: "round_half_even (of_int z) = z"
  by (simp add: round_half_even_def)

lemma to_double_exact:
  assumes "\<bar>n\<bar> < 2 ^ 53"
  shows "to_double (of_int n * 2 powi k) = of_int n * 2 powi k"
proof (cases "n = 0")
  case True
  then show ?thesis by (simp add: to_double_def)
next
  case False
  define x :: rat where "x = of_int n * 2 powi k"
  define e where "e = floor_log2 \<bar>x\<bar>"
  have x0: "x \<noteq> 0" using False by (simp add: x_def)
  have ax: "\<bar>x\<bar> = of_int \<bar>n\<bar> * 2 powi k" by (simp add: x_def abs_mult)
  have "(of_int \<bar>n\<bar> :: rat) < of_int (2 ^ 53)" using assms by (simp only: of_int_less_iff)
  then have "\<bar>x\<bar> < 2 ^ 53 * 2 powi k" unfolding ax by (intro mult_strict_right_mono) simp_all
  also have "\<dots> = 2 powi (53 + k)" by (simp add: power_int_add)
  finally have up: "\<bar>x\<bar> < 2 powi (53 + k)" .
  have "2 powi e \<le> \<bar>x\<bar>" unfolding e_def using x0 by (intro floor_log2_le) simp
  with up have lt: "(2::rat) powi e < 2 powi (53 + k)" by simp
  have e: "e < 53 + k"
  proof (rule ccontr)
    assume "\<not> e < 53 + k"
    then have "(2::rat) powi (53 + k) \<le> 2 powi e" by (intro power_int_increasing) simp_all
    with lt show False by simp
  qed
  define j where "j = nat (k - e + 52)"
  have j: "int j = k - e + 52" using e by (simp add: j_def)
  have "x / 2 powi (e - 52) = of_int n * 2 powi (k - (e - 52))"
    by (simp add: x_def power_int_diff)
  also have "k - (e - 52) = int j" using j by simp
  also have "of_int n * (2::rat) powi int j = of_int (n * 2 ^ j)" by simp
  finally have m: "x / 2 powi (e - 52) = of_int (n * 2 ^ j)" .
  have "to_double x = of_int (round_half_even (x / 2 powi (e - 52))) * 2 powi (e - 52)"
    using x0 by (simp add: to_double_def Let_def e_def)
  also have "\<dots> = of_int (n * 2 ^ j) * 2 powi (e - 52)"
    by (simp only: m round_half_even_of_int)
  also have "\<dots> = of_int n * (2 powi int j * 2 powi (e - 52))" by simp
  also have "2 powi int j * (2::rat) powi (e - 52) = 2 powi k"
    by (simp add: power_int_add [symmetric] j del: power_int_of_nat)
  finally show ?thesis by (simp add: x_def)
qed


lemma trunc_of_int: "trunc (of_int z) = z"
  by (simp add: trunc_def)

lemma slope_256: "slope 256 = 255 / 256"
  using to_double_exact [of 255 "- 8"] by (simp add: slope_def ddiv_def double_of_int_def qMax_def)

lemma window_value_256:
  assumes "\<bar>d\<bar> \<le> 2 ^ 31"
  shows "window_value d 256 = (255 * of_int d + 127 * 256) / 256"
proof -
  have a: "\<bar>255 * d\<bar> < 2 ^ 53" using assms by simp
  have b: "\<bar>255 * d + 127 * 256\<bar> < 2 ^ 53" using assms by simp
  have m: "dmul (slope 256) (double_of_int d) = 255 * of_int d / 256"
    using to_double_exact [OF a, of "- 8"] by (simp add: dmul_def slope_256 double_of_int_def)
  have "to_double (255 * of_int d / 256 + 127) = 255 * of_int d / 256 + 127"
    using to_double_exact [OF b, of "- 8"] by (simp add: add_divide_distrib)
  then have "dadd (dmul (slope 256) (double_of_int d)) (double_of_int 127) = 255 * of_int d / 256 + 127"
    unfolding m dadd_def by (simp add: double_of_int_def)
  then show ?thesis by (simp add: window_value_def add_divide_distrib)
qed

lemma window_value_256_floor:
  assumes "\<bar>d\<bar> \<le> 2 ^ 31"
  shows "\<lfloor>window_value d 256\<rfloor> = (255 * d + 32512) div 256"
proof -
  have "window_value d 256 = of_int (255 * d + 32512) / of_int 256"
    by (simp add: window_value_256 [OF assms])
  then show ?thesis by (simp only: floor_divide_of_int_eq)
qed

lemma newGray_256:
  assumes "0 \<le> gray" "gray \<le> 255" "\<bar>center\<bar> \<le> 2 ^ 23"
  shows "newGray gray center 256 = Some (qBound 0 ((255 * (gray - center) + 32512) div 256) 255)"
proof -
  have "\<bar>gray - center\<bar> \<le> 2 ^ 23 + 255" using assms by linarith
  then have "\<bar>gray - center\<bar> \<le> 2 ^ 31" by simp
  then show ?thesis by (simp only: newGray_defined [OF assms] window_value_256_floor)
qed

lemma spec_output_256:
  assumes "\<bar>input - center\<bar> \<le> 2 ^ 31"
  shows "spec_output input center 256 = max 0 (min 255 ((255 * (input - center) + 32640) div 256))"
proof -
  have "spec_output input center 256 = max 0 (min 255 (round (window_value (input - center) 256)))"
    by (simp add: spec_output_def window_value_def slope_def double_of_int_def qMax_def)
  also have "window_value (input - center) 256 + 1 / 2 = of_int (255 * (input - center) + 32640) / of_int 256"
    by (simp add: window_value_256 [OF assms] field_simps)
  then have "round (window_value (input - center) 256) = (255 * (input - center) + 32640) div 256"
    unfolding round_def by (simp only: floor_divide_of_int_eq)
  finally show ?thesis .
qed




section \<open>Properties of the loops\<close>

text \<open>
  On a valid image the two loops compute the map of the per-sample transform over every
  scan line, or nothing when some sample has no defined result.
\<close>

lemma those_length: "those xs = Some ys \<Longrightarrow> length ys = length xs"
  by (induction xs arbitrary: ys) (auto split: option.splits)

lemma those_map_Some: "(\<And>x. x \<in> set xs \<Longrightarrow> f x = Some (g x)) \<Longrightarrow> those (map f xs) = Some (map g xs)"
  by (induction xs) simp_all


lemma window_line_length: "window_line c w line = Some line' \<Longrightarrow> length line' = length line"
  by (auto simp: window_line_def dest: those_length)

lemma line_loop_window_line:
  "x \<le> length line \<Longrightarrow> n = length line \<Longrightarrow>
   line_loop c w n x line = map_option (\<lambda>r. take x line @ r) (window_line c w (drop x line))"
proof (induction c w n x line rule: line_loop.induct)
  case (1 c w n x line)
  show ?case
  proof (cases "x < n")
    case False
    with "1.prems" show ?thesis by (subst line_loop.simps) (simp add: window_line_def)
  next
    case True
    then have dr: "drop x line = line ! x # drop (Suc x) line"
      using "1.prems" by (simp add: Cons_nth_drop_Suc)
    show ?thesis
    proof (cases "window_sample c w (line ! x)")
      case None
      with True dr show ?thesis by (subst line_loop.simps) (simp add: window_line_def)
    next
      case (Some g)
      have "line_loop c w n (Suc x) (line[x := g]) =
          map_option (\<lambda>r. take (Suc x) (line[x := g]) @ r) (window_line c w (drop (Suc x) (line[x := g])))"
        using True "1.prems" by (intro "1.IH" [OF True Some]) simp_all
      moreover have "take (Suc x) (line[x := g]) = take x line @ [g]"
        using True "1.prems" by (simp add: take_Suc_conv_app_nth)
      ultimately show ?thesis
        using True Some dr
        by (subst line_loop.simps) (simp add: window_line_def option.map_comp comp_def)
    qed
  qed
qed

lemma image_loop_window_image:
  "y \<le> length (bits img) \<Longrightarrow> QImage_valid img \<Longrightarrow>
   image_loop c w y img =
     map_option (\<lambda>r. img\<lparr>bits := take y (bits img) @ r\<rparr>) (those (map (window_line c w) (drop y (bits img))))"
proof (induction c w y img rule: image_loop.induct)
  case (1 c w y img)
  have h: "height img = length (bits img)" using "1.prems" by (simp add: QImage_valid_def)
  show ?case
  proof (cases "y < height img")
    case False
    with "1.prems" h show ?thesis by (subst image_loop.simps) simp
  next
    case True
    then have dr: "drop y (bits img) = bits img ! y # drop (Suc y) (bits img)"
      using h by (simp add: Cons_nth_drop_Suc)
    have len: "length (bits img ! y) = width img"
      using "1.prems" True h by (simp add: QImage_valid_def list_all_length)
    have ll: "line_loop c w (width img) 0 (scanLine img y) = window_line c w (bits img ! y)"
      using len by (simp add: line_loop_window_line scanLine_def option.map_ident)
    show ?thesis
    proof (cases "window_line c w (bits img ! y)")
      case None
      with True dr ll show ?thesis by (subst image_loop.simps) simp
    next
      case (Some line)
      have ln: "length line = width img"
        using window_line_length [OF Some] len by simp
      have v: "QImage_valid (set_scanLine img y line)"
        using "1.prems" True h ln
        by (auto simp: QImage_valid_def set_scanLine_def list_all_length nth_list_update)
      have "image_loop c w (Suc y) (set_scanLine img y line) =
         map_option (\<lambda>r. (set_scanLine img y line)\<lparr>bits := take (Suc y) (bits (set_scanLine img y line)) @ r\<rparr>)
           (those (map (window_line c w) (drop (Suc y) (bits (set_scanLine img y line)))))"
        using True h ll Some by (intro "1.IH" [OF True _ _ v]) (simp_all add: set_scanLine_def)
      moreover have "take (Suc y) (bits (set_scanLine img y line)) = take y (bits img) @ [line]"
        using True h by (simp add: set_scanLine_def take_Suc_conv_app_nth)
      ultimately show ?thesis
        using True Some dr ll
        by (subst image_loop.simps) (simp add: set_scanLine_def option.map_comp comp_def)
    qed
  qed
qed

lemma image_loop_0: "QImage_valid img \<Longrightarrow> image_loop c w 0 img = window_image c w img"
  by (simp add: image_loop_window_image window_image_def)

text \<open>
  For a centre of size at most \<open>2 ^ 23\<close> every sample has a defined result, so the loops
  return an image, of the dimensions of their input.
\<close>

lemma window_sample_defined:
  assumes "\<bar>center\<bar> \<le> 2 ^ 23"
  shows "window_sample center width' s =
     Some (word_of_int (qBound 0 \<lfloor>window_value (uint s - center) width'\<rfloor> 255))"
proof -
  have "0 \<le> uint s" "uint s \<le> 255" using uint_lt2p [of s] by simp_all
  then show ?thesis using assms by (simp add: window_sample_def newGray_defined)
qed

lemma window_line_defined:
  assumes "\<bar>center\<bar> \<le> 2 ^ 23"
  shows "window_line center width' line =
     Some (map (\<lambda>s. word_of_int (qBound 0 \<lfloor>window_value (uint s - center) width'\<rfloor> 255)) line)"
  unfolding window_line_def by (rule those_map_Some) (rule window_sample_defined [OF assms])

lemma window_image_defined:
  assumes "\<bar>center\<bar> \<le> 2 ^ 23"
  shows "window_image center width' img =
     Some (img\<lparr>bits := map (map (\<lambda>s. word_of_int (qBound 0 \<lfloor>window_value (uint s - center) width'\<rfloor> 255))) (bits img)\<rparr>)"
proof -
  have "those (map (window_line center width') (bits img)) =
      Some (map (map (\<lambda>s. word_of_int (qBound 0 \<lfloor>window_value (uint s - center) width'\<rfloor> 255))) (bits img))"
    by (rule those_map_Some) (rule window_line_defined [OF assms])
  then show ?thesis by (simp add: window_image_def)
qed

lemma line_loop_total:
  assumes "\<bar>c\<bar> \<le> 2 ^ 23"
  shows "\<exists>line'. line_loop c w n x line = Some line'"
  using assms
proof (induction c w n x line rule: line_loop.induct)
  case (1 c w n x line)
  show ?case
  proof (cases "x < n")
    case False
    then show ?thesis by (subst line_loop.simps) simp
  next
    case True
    obtain g where g: "window_sample c w (line ! x) = Some g"
      using window_sample_defined [OF "1.prems"] by blast
    show ?thesis using "1.IH" [OF True g "1.prems"] True g by (subst line_loop.simps) simp
  qed
qed

lemma image_loop_total:
  assumes "\<bar>c\<bar> \<le> 2 ^ 23"
  shows "\<exists>img'. image_loop c w y img = Some img'"
  using assms
proof (induction c w y img rule: image_loop.induct)
  case (1 c w y img)
  show ?case
  proof (cases "y < height img")
    case False
    then show ?thesis by (subst image_loop.simps) simp
  next
    case True
    obtain line where line: "line_loop c w (width img) 0 (scanLine img y) = Some line"
      using line_loop_total [OF "1.prems"] by blast
    show ?thesis using "1.IH" [OF True line "1.prems"] True line by (subst image_loop.simps) simp
  qed
qed




lemma window_256_samples:
  assumes "\<bar>center\<bar> \<le> 2 ^ 23"
  shows "(\<lambda>s :: uchar. word_of_int (qBound 0 \<lfloor>window_value (uint s - center) 256\<rfloor> 255) :: uchar) =
   (\<lambda>s. word_of_int (qBound 0 ((255 * (uint s - center) + 32512) div 256) 255))"
proof (rule ext)
  fix s :: uchar
  have "0 \<le> uint s" "uint s \<le> 255" using uint_lt2p [of s] by simp_all
  then have "\<bar>uint s - center\<bar> \<le> 2 ^ 23 + 255" using assms by linarith
  then have "\<bar>uint s - center\<bar> \<le> 2 ^ 31" by simp
  then show "(word_of_int (qBound 0 \<lfloor>window_value (uint s - center) 256\<rfloor> 255) :: uchar) =
     word_of_int (qBound 0 ((255 * (uint s - center) + 32512) div 256) 255)"
    by (simp only: window_value_256_floor)
qed


section \<open>Properties of the widget\<close>

text \<open>
  With an image loaded, \<^verbatim>\<open>adjustWindowLevel\<close> stores its arguments and replaces the displayed
  pixmap by the result of the loops on the stored source; without one it only stores its
  arguments.
\<close>

lemma applyWindowLevel_loaded:
  assumes "\<not> isNull (currentPixmap widget)" "pixmapItem widget \<noteq> None"
  shows "adjustWindowLevel center width' widget =
     map_option (\<lambda>img. widget\<lparr>windowCenter := center, windowWidth := width', pixmapItem := Some img\<rparr>)
       (image_loop center width' 0 (currentPixmap widget))"
  using assms
  by (auto simp: adjustWindowLevel_def applyWindowLevel_def toImage_def fromImage_def
      convertToFormat_Grayscale8_def split: option.splits)

lemma adjustWindowLevel_empty:
  assumes "isNull (currentPixmap widget) \<or> pixmapItem widget = None"
  shows "adjustWindowLevel center width' widget = Some (widget\<lparr>windowCenter := center, windowWidth := width'\<rparr>)"
  using assms by (auto simp: adjustWindowLevel_def applyWindowLevel_def)

lemma adjustWindowLevel_total:
  assumes "\<bar>center\<bar> \<le> 2 ^ 23"
  shows "\<exists>widget'. adjustWindowLevel center width' widget = Some widget'"
proof (cases "isNull (currentPixmap widget) \<or> pixmapItem widget = None")
  case True
  then show ?thesis by (simp add: adjustWindowLevel_empty)
next
  case False
  obtain img where "image_loop center width' 0 (currentPixmap widget) = Some img"
    using image_loop_total [OF assms] by blast
  with False show ?thesis by (simp add: applyWindowLevel_loaded)
qed



lemma adjustWindowLevel_frame:
  assumes "adjustWindowLevel center width' widget = Some widget'"
  shows "currentPixmap widget' = currentPixmap widget \<and> view widget' = view widget \<and>
     scaleFactor widget' = scaleFactor widget \<and> sceneRect widget' = sceneRect widget \<and>
     isDragging widget' = isDragging widget \<and> lastPanPoint widget' = lastPanPoint widget \<and>
     windowCenter widget' = center \<and> windowWidth widget' = width'"
  using assms
  by (cases "isNull (currentPixmap widget) \<or> pixmapItem widget = None")
    (auto simp: adjustWindowLevel_empty applyWindowLevel_loaded)






section \<open>Properties of the main window\<close>

lemma loadDicomFile_widget:
  "imageWidget (loadDicomFile qt decoder path win) =
     (case decoded decoder path of
        None \<Rightarrow> imageWidget win
      | Some pixmap \<Rightarrow> setDicomImage qt pixmap (imageWidget win))"
  by (simp add: loadDicomFile_def decoded_def Let_def split: Decoder.splits DcmtkResult.splits)



section \<open>The examples, evaluated\<close>

lemma example_image_valid: "QImage_valid example_image \<and> \<not> isNull example_image"
  by (simp add: example_image_def gray_image_def QImage_valid_def isNull_def)

lemma example_widget_eq:
  "example_widget =
     \<lparr>view = \<lparr>calls = [FitInView (QRect 0 0 2 2)], hscroll = 0, vscroll = 0\<rparr>,
      sceneRect = QRect 0 0 2 2, pixmapItem = Some example_image, currentPixmap = example_image,
      scaleFactor = 1, windowCenter = 128, windowWidth = 256, isDragging = False,
      lastPanPoint = (0, 0)\<rparr>"
  by (simp add: example_widget_def setDicomImage_def new_DicomImageWidget_def Let_def
      itemsBoundingRect_def rect_def example_image_def gray_image_def recording_view_def
      recorded_def fresh_view_def)

lemma example_image_windowed:
  "image_loop 128 256 0 example_image = Some (gray_image [[0, 128], [127, 253]])"
proof -
  have c: "\<bar>128 :: int\<bar> \<le> 2 ^ 23" by simp
  show ?thesis
    unfolding image_loop_0 [OF example_image_valid [THEN conjunct1]] window_image_defined [OF c]
      window_256_samples [OF c]
    by (simp add: example_image_def gray_image_def qBound_def qMax_def qMin_def)
qed

lemma example_widget_loaded:
  "QImage_valid (currentPixmap example_widget) \<and> \<not> isNull (currentPixmap example_widget) \<and>
   pixmapItem example_widget \<noteq> None"
  using example_image_valid by (simp add: example_widget_eq)



lemma zoomed_widget_windowed:
  "adjustWindowLevel 128 256 zoomed_widget =
     Some (zoomed_widget\<lparr>pixmapItem := Some (gray_image [[0, 128], [127, 253]])\<rparr>)"
  using example_image_valid
  by (simp add: applyWindowLevel_loaded example_image_windowed example_widget_eq zoomed_widget_def
      zoomIn_def Let_def)



lemma example_decoded:
  "decoded example_files ''/b.png'' = Some example_image \<and>
   decoded example_files ''/missing.png'' = None \<and>
   isNull (example_load ''/missing.png'') \<and>
   example_loadFile ''/missing.dcm'' \<in> {LoadFileFailed, BadImageStatus, NoPixelData}"
  using example_image_valid
  by (simp add: decoded_def example_files_def example_load_def example_loadFile_def isNull_def
      null_pixmap_def)

section \<open>The claims\<close>

text \<open>
  C1, as stated: every output sample is \<open>clamp(round(slope * (input - center) + 127), 0, 255)\<close>
  with \<open>slope = 255.0 / max(1, width)\<close>, the value being rounded to the nearest integer
  before it is clamped. The code converts with \<^verbatim>\<open>int(...)\<close>, which discards the fraction: for
  the sample 130 with centre 128 and width 256 the value is \<open>128.9921875\<close>, the code stores
  128 and the stated formula gives 129. For a centre at the end of the \<^verbatim>\<open>int\<close> range the
  subtraction \<^verbatim>\<open>gray - windowCenter\<close> overflows, and no output is defined.
\<close>

theorem window_rounds_counterexample:
  "newGray 130 128 256 = Some 128 \<and> spec_output 130 128 256 = 129 \<and>
   newGray 0 (- 2147483648) 1 = None"
  by (simp add: newGray_256 spec_output_256 qBound_def qMax_def qMin_def)
    (simp add: newGray_def int_sub_def in_int_def INT_MAX_def INT_MIN_def)

text \<open>
  C1, amended: for every sample, every width and every centre of size at most \<open>2 ^ 23\<close>
  (the sliders give \<open>-1000\<close> to \<open>3000\<close>), the output sample is
  \<open>clamp(trunc(slope * (input - center) + 127), 0, 255)\<close> with \<open>slope = 255.0 / max(1, width)\<close>
  in double arithmetic: the value is truncated towards zero, not rounded, before it is
  clamped, which after the clamp is the same as taking its floor. On a loaded, valid
  image \<^verbatim>\<open>adjustWindowLevel\<close> displays the image of these samples.
\<close>

theorem window_truncates:
  assumes "\<bar>center\<bar> \<le> 2 ^ 23"
  shows "window_value d width' = dadd (dmul (ddiv 255 (of_int (max 1 width'))) (of_int d)) 127 \<and>
     newGray (uint (s :: uchar)) center width' =
       Some (qBound 0 (trunc (window_value (uint s - center) width')) 255) \<and>
     qBound 0 (trunc (window_value (uint s - center) width')) 255 =
       max 0 (min 255 \<lfloor>window_value (uint s - center) width'\<rfloor>) \<and>
     (QImage_valid (currentPixmap widget) \<and> \<not> isNull (currentPixmap widget) \<and>
      pixmapItem widget \<noteq> None \<longrightarrow>
        adjustWindowLevel center width' widget =
          Some (widget\<lparr>windowCenter := center, windowWidth := width',
             pixmapItem := Some ((currentPixmap widget)\<lparr>bits :=
               map (map (\<lambda>s. word_of_int (qBound 0 (trunc (window_value (uint s - center) width')) 255)))
                 (bits (currentPixmap widget))\<rparr>)\<rparr>))"
proof -
  have s: "0 \<le> uint s" "uint s \<le> 255" using uint_lt2p [of s] by simp_all
  show ?thesis
    apply (intro conjI impI)
    subgoal by (simp add: window_value_def slope_def double_of_int_def qMax_def max_def)
    subgoal using newGray_defined [OF s assms] by (simp add: qBound_trunc)
    subgoal unfolding qBound_max_min [symmetric] by (rule qBound_trunc)
    subgoal
      by (simp add: applyWindowLevel_loaded image_loop_0 window_image_defined [OF assms] qBound_trunc)
    done
qed

theorem window_truncates_witness:
  "\<bar>128 :: int\<bar> \<le> 2 ^ 23 \<and>
   QImage_valid (currentPixmap example_widget) \<and> \<not> isNull (currentPixmap example_widget) \<and>
   pixmapItem example_widget \<noteq> None \<and>
   newGray (uint (130 :: uchar)) 128 256 =
     Some (qBound 0 (trunc (window_value (uint (130 :: uchar) - 128) 256)) 255) \<and>
   qBound 0 (trunc (window_value (uint (130 :: uchar) - 128) 256)) 255 = 128 \<and>
   adjustWindowLevel 128 256 example_widget =
     Some (example_widget\<lparr>windowCenter := 128, windowWidth := 256,
        pixmapItem := Some ((currentPixmap example_widget)\<lparr>bits :=
          map (map (\<lambda>s. word_of_int (qBound 0 (trunc (window_value (uint s - 128) 256)) 255)))
            (bits (currentPixmap example_widget))\<rparr>)\<rparr>)"
proof -
  have h: "\<bar>128 :: int\<bar> \<le> 2 ^ 23" by simp
  have v: "qBound 0 (trunc (window_value (uint (130 :: uchar) - 128) 256)) 255 = 128"
    by (simp add: qBound_trunc window_value_256_floor) (simp add: qBound_def qMax_def qMin_def)
  from window_truncates [OF h, of 0 256 130 example_widget] example_widget_loaded h v
  show ?thesis by blast
qed



text \<open>
  C3, as stated: loading an image resets the window parameters to the centre 128 and the
  width 256. \<^verbatim>\<open>setDicomImage\<close> does not assign \<open>windowCenter\<close> or \<open>windowWidth\<close>: after
  \<^verbatim>\<open>adjustWindowLevel(50, 100)\<close> a load leaves them at 50 and 100.
\<close>

theorem setDicomImage_resets_counterexample:
  "adjustWindowLevel 50 100 (new_DicomImageWidget fresh_view) = Some adjusted_widget \<and>
   windowCenter (setDicomImage recording_view example_image adjusted_widget) = 50 \<and>
   windowWidth (setDicomImage recording_view example_image adjusted_widget) = 100"
  by (simp add: adjustWindowLevel_empty adjusted_widget_def new_DicomImageWidget_def
      setDicomImage_def Let_def)

text \<open>
  C3, amended: loading an image keeps the window parameters as they are (128 and 256 from
  the constructor until \<^verbatim>\<open>adjustWindowLevel\<close> is first called), stores the image as the source,
  displays it as it is, sets the scene rectangle to its rectangle, and refits the view with
  \<^verbatim>\<open>fitInView\<close> on that rectangle; the scale factor field is left as it is.
\<close>

theorem setDicomImage_keeps_window:
  "windowCenter (setDicomImage qt pixmap widget) = windowCenter widget \<and>
   windowWidth (setDicomImage qt pixmap widget) = windowWidth widget \<and>
   windowCenter (setDicomImage qt pixmap (new_DicomImageWidget v)) = 128 \<and>
   windowWidth (setDicomImage qt pixmap (new_DicomImageWidget v)) = 256 \<and>
   currentPixmap (setDicomImage qt pixmap widget) = pixmap \<and>
   pixmapItem (setDicomImage qt pixmap widget) = Some pixmap \<and>
   sceneRect (setDicomImage qt pixmap widget) = rect pixmap \<and>
   view (setDicomImage qt pixmap widget) = fitInView qt (rect pixmap) (view widget) \<and>
   scaleFactor (setDicomImage qt pixmap widget) = scaleFactor widget"
  by (simp add: setDicomImage_def Let_def itemsBoundingRect_def new_DicomImageWidget_def)






text \<open>
  C6: the view and the window parameters are independent. \<^verbatim>\<open>adjustWindowLevel\<close> leaves the
  view of the base class (transform and scroll bars), the scale factor, the scene rectangle
  and the drag state as they are, and returns for every centre of size at most \<open>2 ^ 23\<close>.
  Each zoom and pan operation (\<^verbatim>\<open>zoomIn\<close>, \<^verbatim>\<open>zoomOut\<close>, \<^verbatim>\<open>resetZoom\<close>, the wheel and the three
  mouse handlers) leaves the centre, the width, the stored source and the displayed pixmap
  as they are.
\<close>

theorem view_and_window_independent:
  "(adjustWindowLevel center width' widget = Some widget' \<longrightarrow>
      view widget' = view widget \<and> scaleFactor widget' = scaleFactor widget \<and>
      sceneRect widget' = sceneRect widget \<and> isDragging widget' = isDragging widget \<and>
      lastPanPoint widget' = lastPanPoint widget) \<and>
   (\<bar>center\<bar> \<le> 2 ^ 23 \<longrightarrow> (\<exists>widget''. adjustWindowLevel center width' widget = Some widget'')) \<and>
   (\<forall>f \<in> {zoomIn qt, zoomOut qt, resetZoom qt, wheelEvent qt wheel, mousePressEvent qt mouse,
          mouseMoveEvent qt mouse, mouseReleaseEvent qt mouse}.
      windowCenter (f widget) = windowCenter widget \<and> windowWidth (f widget) = windowWidth widget \<and>
      currentPixmap (f widget) = currentPixmap widget \<and> pixmapItem (f widget) = pixmapItem widget)"
  apply (rule conjI)
  subgoal using adjustWindowLevel_frame by blast
  apply (rule conjI)
  subgoal by (blast intro: adjustWindowLevel_total)
  subgoal
    by (simp add: zoomIn_def zoomOut_def resetZoom_def wheelEvent_def mousePressEvent_def
        mouseMoveEvent_def mouseReleaseEvent_def Let_def)
  done

theorem view_and_window_independent_witness:
  "adjustWindowLevel 128 256 zoomed_widget =
     Some (zoomed_widget\<lparr>pixmapItem := Some (gray_image [[0, 128], [127, 253]])\<rparr>) \<and>
   view (zoomed_widget\<lparr>pixmapItem := Some (gray_image [[0, 128], [127, 253]])\<rparr>) = view zoomed_widget \<and>
   scaleFactor (zoomed_widget\<lparr>pixmapItem := Some (gray_image [[0, 128], [127, 253]])\<rparr>) =
     scaleFactor zoomed_widget \<and>
   \<bar>128 :: int\<bar> \<le> 2 ^ 23 \<and>
   zoomIn recording_view \<in> {zoomIn recording_view, zoomOut recording_view, resetZoom recording_view,
      wheelEvent recording_view \<lparr>angleDelta = (0, 120)\<rparr>,
      mousePressEvent recording_view \<lparr>button = MiddleButton, pos = (3, 4)\<rparr>,
      mouseMoveEvent recording_view \<lparr>button = MiddleButton, pos = (3, 4)\<rparr>,
      mouseReleaseEvent recording_view \<lparr>button = MiddleButton, pos = (3, 4)\<rparr>} \<and>
   windowCenter (zoomIn recording_view zoomed_widget) = windowCenter zoomed_widget \<and>
   windowWidth (zoomIn recording_view zoomed_widget) = windowWidth zoomed_widget \<and>
   pixmapItem (zoomIn recording_view zoomed_widget) = pixmapItem zoomed_widget"
proof -
  have c: "\<bar>128 :: int\<bar> \<le> 2 ^ 23" by simp
  from view_and_window_independent [of 128 256 zoomed_widget
      "zoomed_widget\<lparr>pixmapItem := Some (gray_image [[0, 128], [127, 253]])\<rparr>"
      recording_view "\<lparr>angleDelta = (0, 120)\<rparr>" "\<lparr>button = MiddleButton, pos = (3, 4)\<rparr>"]
    zoomed_widget_windowed c
  show ?thesis by blast
qed

text \<open>
  C7: a source that cannot be decoded leaves the window as it was, apart from the status
  line and the progress bar. Without DCMTK that is every path whose \<^verbatim>\<open>QPixmap\<close> is null
  (unreadable, empty or of zero width or height); with DCMTK it is a failed \<^verbatim>\<open>loadFile\<close>, an
  image whose status is not \<^verbatim>\<open>EIS_Normal\<close> (DCMTK gives that status to a data set with zero
  rows or columns) and missing output data. The image widget, with the displayed image and
  the view, is unchanged, the status line holds the error message, and the call returns
  with the progress bar hidden.
\<close>

theorem loadDicomFile_failure:
  "(isNull (load path) \<longrightarrow>
      loadDicomFile qt (PlainPixmap load) path win =
        win\<lparr>progressBar_visible := False, progressBar_range := (0, 0),
            statusLabel := ''Error: Cannot load file''\<rparr>) \<and>
   (loadFile path \<in> {LoadFileFailed, BadImageStatus, NoPixelData} \<longrightarrow>
      loadDicomFile qt (Dcmtk loadFile) path win =
        win\<lparr>progressBar_visible := False, progressBar_range := (0, 0),
            statusLabel :=
              (case loadFile path of
                 LoadFileFailed \<Rightarrow> ''Error: Cannot load DICOM file''
               | BadImageStatus \<Rightarrow> ''Error: Cannot create DICOM image''
               | _ \<Rightarrow> ''Error: No pixel data'')\<rparr>) \<and>
   (decoded decoder path = None \<longrightarrow>
      imageWidget (loadDicomFile qt decoder path win) = imageWidget win \<and>
      take 6 (statusLabel (loadDicomFile qt decoder path win)) = ''Error:'' \<and>
      \<not> progressBar_visible (loadDicomFile qt decoder path win) \<and>
      currentSeries (loadDicomFile qt decoder path win) = currentSeries win \<and>
      seriesList (loadDicomFile qt decoder path win) = seriesList win)"
  apply (intro conjI impI)
  subgoal by (simp add: loadDicomFile_def Let_def)
  subgoal by (auto simp: loadDicomFile_def Let_def)
  subgoal by (simp add: loadDicomFile_widget)
  subgoal
    by (auto simp: loadDicomFile_def decoded_def Let_def
        split: Decoder.splits DcmtkResult.splits if_splits)
  subgoal by (simp add: loadDicomFile_def Let_def)
  subgoal by (simp add: loadDicomFile_def Let_def split: Decoder.splits DcmtkResult.splits)
  subgoal by (simp add: loadDicomFile_def Let_def split: Decoder.splits DcmtkResult.splits)
  done

theorem loadDicomFile_failure_witness:
  "isNull (example_load ''/missing.png'') \<and>
   loadDicomFile recording_view (PlainPixmap example_load) ''/missing.png'' loaded_window =
     loaded_window\<lparr>progressBar_visible := False, progressBar_range := (0, 0),
        statusLabel := ''Error: Cannot load file''\<rparr> \<and>
   example_loadFile ''/missing.dcm'' \<in> {LoadFileFailed, BadImageStatus, NoPixelData} \<and>
   statusLabel (loadDicomFile recording_view (Dcmtk example_loadFile) ''/missing.dcm'' loaded_window) =
     ''Error: Cannot create DICOM image'' \<and>
   decoded example_files ''/missing.png'' = None \<and>
   pixmapItem (imageWidget (loadDicomFile recording_view example_files ''/missing.png'' loaded_window)) =
     Some example_image"
proof -
  note t = loadDicomFile_failure [of example_load "''/missing.png''" recording_view loaded_window
      example_loadFile example_files]
  note u = loadDicomFile_failure [of example_load "''/missing.dcm''" recording_view loaded_window
      example_loadFile example_files]
  have s: "statusLabel (loadDicomFile recording_view (Dcmtk example_loadFile) ''/missing.dcm''
      loaded_window) = ''Error: Cannot create DICOM image''"
    using u [THEN conjunct2, THEN conjunct1] example_decoded by (simp add: example_loadFile_def)
  have p: "pixmapItem (imageWidget loaded_window) = Some example_image"
    using example_decoded
    by (simp add: loaded_window_def loadDicomFile_widget setDicomImage_def Let_def)
  from t s p example_decoded show ?thesis by simp
qed





end
